theory Spec2Isabelle
  imports Main
begin

section \<open>Exceptions\<close>

text \<open>
  Every exception the modelled code can raise is a value; a function that can raise
  returns \<open>exn + 'a\<close>, with \<open>Inl\<close> for the exception.
\<close>

datatype exn =
    ImportError
  | ZeroDivisionError
  | IndexError
  | KeyError
  | ConfigurationError
  | OtherError string

section \<open>Python primitives\<close>

text \<open>\<open>str(i)\<close> for an integer: decimal digits, with a leading minus sign.\<close>

definition digit_char :: "nat \<Rightarrow> char" where
  "digit_char d = ''0123456789'' ! d"

fun str_nat :: "nat \<Rightarrow> string" where
  "str_nat n = (if n < 10 then [digit_char n] else str_nat (n div 10) @ [digit_char (n mod 10)])"

declare str_nat.simps [simp del]

definition str :: "int \<Rightarrow> string" where
  "str i = (if i < 0 then CHR ''-'' # str_nat (nat (- i)) else str_nat (nat i))"

text \<open>\<open>sep.join(xs)\<close>.\<close>

fun str_join :: "string \<Rightarrow> string list \<Rightarrow> string" where
  "str_join sep [] = []"
| "str_join sep [x] = x"
| "str_join sep (x # y # ys) = x @ sep @ str_join sep (y # ys)"

text \<open>
  \<open>xs[j]\<close>: a negative index counts from the end, an index out of range raises
  \<open>IndexError\<close>.
\<close>

definition getitem :: "'a list \<Rightarrow> int \<Rightarrow> exn + 'a" where
  "getitem xs j =
     (let n = int (length xs);
          k = (if j < 0 then j + n else j)
      in if 0 \<le> k \<and> k < n then Inr (xs ! nat k) else Inl IndexError)"

text \<open>\<open>range(a, b)\<close> and \<open>range(n)\<close>: empty when the bounds cross.\<close>

definition py_range :: "int \<Rightarrow> int \<Rightarrow> int list" where
  "py_range a b = [a..b - 1]"

section \<open>Data of the test runner\<close>

text \<open>
  One entry of \<open>system.cpus\<close>: the logical core ids of one allocatable CPU
  (the code reads \<open>cpus[j].ids\<close>).
\<close>

record CPUInfo =
  ids :: "int list"

text \<open>
  The fields of \<open>Config\<close> that the OpenMP stage and the test plan read. A feature
  kind is a string (\<open>kind: FeatureType = "openmp"\<close>), and so is the pinning mode
  (the code compares it with \<open>"strict"\<close> and \<open>"none"\<close>).
\<close>

record Config =
  omps :: int
  ompthreads :: int
  utility :: int
  cpu_pin :: string
  requested_workers :: int
  features :: "string list"
  test_files :: "string list"

text \<open>
  \<open>System\<close>: the CPU list, and the GPU query, which raises when the GPU toolkit
  cannot be imported. The GPU descriptors are not inspected, only counted.
\<close>

record 'g System =
  cpus :: "CPUInfo list"
  gpus :: "exn + 'g list"

text \<open>\<open>StageSpec(workers, shards)\<close>; a shard is a tuple of core ids.\<close>

record StageSpec =
  workers :: int
  shards :: "int list list"

section \<open>The OpenMP stage\<close>

text \<open>
  Modelled from the spec: \<open>adjust_workers\<close> is imported from the stages' \<open>util\<close>
  module, which is not among the sources. The specification gives it as: when the
  request is 0 (auto) use what is available; otherwise clamp to the minimum of the
  request and what is available, and fail with a fatal configuration error if the
  clamp reduces the explicit request to 0 while nothing is available.
\<close>

definition adjust_workers :: "int \<Rightarrow> int \<Rightarrow> exn + int" where
  "adjust_workers available requested =
     (if requested = 0 then Inr available
      else let w = min requested available
           in if w = 0 \<and> available = 0 then Inl ConfigurationError else Inr w)"

text \<open>The value of the local \<open>procs\<close> in \<open>OMP.compute_spec\<close>.\<close>

definition cores_per_worker :: "Config \<Rightarrow> int" where
  "cores_per_worker config =
     omps config * ompthreads config + utility config
       + (if cpu_pin config = ''strict'' then 1 else 0)"

text \<open>
  \<open>chain.from_iterable(cpus[j].ids for j in shard_cpus)\<close>, consumed by \<open>sorted\<close>:
  the first index out of range raises.
\<close>

fun chain_ids :: "CPUInfo list \<Rightarrow> int list \<Rightarrow> exn + int list" where
  "chain_ids cs [] = Inr []"
| "chain_ids cs (j # js) =
     (case getitem cs j of
        Inl e \<Rightarrow> Inl e
      | Inr c \<Rightarrow>
          (case chain_ids cs js of
             Inl e \<Rightarrow> Inl e
           | Inr rest \<Rightarrow> Inr (ids c @ rest)))"

text \<open>The loop \<open>for i in range(workers)\<close> that appends one sorted shard per worker.\<close>

fun build_shards :: "CPUInfo list \<Rightarrow> int \<Rightarrow> int list \<Rightarrow> exn + int list list" where
  "build_shards cs procs [] = Inr []"
| "build_shards cs procs (i # is) =
     (case chain_ids cs (py_range (i * procs) ((i + 1) * procs)) of
        Inl e \<Rightarrow> Inl e
      | Inr shard \<Rightarrow>
          (case build_shards cs procs is of
             Inl e \<Rightarrow> Inl e
           | Inr rest \<Rightarrow> Inr (sort shard # rest)))"

text \<open>\<open>OMP.compute_spec\<close>. The floor division raises when \<open>procs\<close> is 0.\<close>

definition compute_spec :: "Config \<Rightarrow> 'g System \<Rightarrow> exn + StageSpec" where
  "compute_spec config system =
     (let cs = cpus system;
          procs = cores_per_worker config
      in if procs = 0 then Inl ZeroDivisionError
         else
           (case adjust_workers (int (length cs) div procs) (requested_workers config) of
              Inl e \<Rightarrow> Inl e
            | Inr w \<Rightarrow>
                (case build_shards cs procs (py_range 0 w) of
                   Inl e \<Rightarrow> Inl e
                 | Inr shs \<Rightarrow> Inr \<lparr>workers = w, shards = shs\<rparr>)))"

text \<open>\<open>OMP.shard_args\<close>.\<close>

definition shard_args :: "int list \<Rightarrow> Config \<Rightarrow> string list" where
  "shard_args shard config =
     (let args = [''--omps'', str (omps config), ''--ompthreads'', str (ompthreads config)]
      in if cpu_pin config \<noteq> ''none''
         then args @ [''--cpu-bind'', str_join '','' (map str shard)]
         else args)"

text \<open>
  The number of usable cores of a machine: the core ids of all its CPU entries.
\<close>

definition total_usable_cores :: "'g System \<Rightarrow> int" where
  "total_usable_cores system = int (length (concat (map ids (cpus system))))"

text \<open>
  The closed form of one shard, used to state what the loop above computes: the ids of
  the \<open>k\<close> CPU entries from position \<open>i * k\<close> on, in ascending order.
\<close>

definition shard_of :: "CPUInfo list \<Rightarrow> nat \<Rightarrow> nat \<Rightarrow> int list" where
  "shard_of cs k i = sort (concat (map ids (take k (drop (i * k) cs))))"

section \<open>The test plan\<close>

text \<open>
  What the plan reads of a finished worker process (\<open>proc.returncode\<close>), of a stage
  result (\<open>result.procs\<close>) and of a stage (\<open>stage.name\<close>, \<open>stage.result\<close>).
\<close>

record ProcessResult =
  returncode :: int

record StageResult =
  procs :: "ProcessResult list"

record TestStage =
  name :: string
  result :: StageResult

text \<open>The details shown by the banner of \<open>TestPlan.intro\<close>.\<close>

record intro_details =
  feature_stages :: "string list"
  files_per_stage :: nat
  cpu_count :: nat
  gpu_count :: nat

text \<open>
  \<open>LOG\<close> collects what the plan narrates. Each call is one entry; the rendering of
  banners and of a process record (\<open>log_proc\<close>) is outside the plan, so an entry keeps
  the arguments of the call.
\<close>

datatype log_entry =
    PlanIntro intro_details
  | StageIntro string
  | StageOutro string
  | Rule
  | FailuresBanner
  | ProcLog string ProcessResult
  | PlanOutro int int

text \<open>The attributes \<open>_config\<close>, \<open>_system\<close> and \<open>_stages\<close> of a \<open>TestPlan\<close>.\<close>

record 'g TestPlan =
  plan_config :: Config
  plan_system :: "'g System"
  plan_stages :: "TestStage list"

text \<open>
  \<open>TestPlan.__init__\<close>: one stage per feature, in the order of \<open>config.features\<close>.
  The table \<open>STAGES\<close> is a parameter: a dictionary from feature kind to stage
  constructor; a missing key raises \<open>KeyError\<close>, and a constructor may raise.
\<close>

fun make_stages ::
  "(string \<Rightarrow> (Config \<Rightarrow> 'g System \<Rightarrow> exn + TestStage) option)
     \<Rightarrow> Config \<Rightarrow> 'g System \<Rightarrow> string list \<Rightarrow> exn + TestStage list" where
  "make_stages STAGES c s [] = Inr []"
| "make_stages STAGES c s (feature # fs) =
     (case STAGES feature of
        None \<Rightarrow> Inl KeyError
      | Some mk \<Rightarrow>
          (case mk c s of
             Inl e \<Rightarrow> Inl e
           | Inr st \<Rightarrow>
               (case make_stages STAGES c s fs of
                  Inl e \<Rightarrow> Inl e
                | Inr sts \<Rightarrow> Inr (st # sts))))"

definition TestPlan_init ::
  "(string \<Rightarrow> (Config \<Rightarrow> 'g System \<Rightarrow> exn + TestStage) option)
     \<Rightarrow> Config \<Rightarrow> 'g System \<Rightarrow> exn + 'g TestPlan" where
  "TestPlan_init STAGES c s =
     (case make_stages STAGES c s (features c) of
        Inl e \<Rightarrow> Inl e
      | Inr sts \<Rightarrow> Inr \<lparr>plan_config = c, plan_system = s, plan_stages = sts\<rparr>)"

text \<open>
  \<open>TestPlan.intro\<close>: the GPU count is 0 when the GPU query raises \<open>ImportError\<close>;
  any other exception propagates.
\<close>

definition intro :: "'g TestPlan \<Rightarrow> exn + intro_details" where
  "intro plan =
     (let n_cpus = length (cpus (plan_system plan))
      in case (case gpus (plan_system plan) of
                 Inr gs \<Rightarrow> Inr (length gs)
               | Inl e \<Rightarrow> if e = ImportError then Inr 0 else Inl e) of
           Inl e \<Rightarrow> Inl e
         | Inr n_gpus \<Rightarrow>
             Inr \<lparr>feature_stages = features (plan_config plan),
                  files_per_stage = length (test_files (plan_config plan)),
                  cpu_count = n_cpus,
                  gpu_count = n_gpus\<rparr>)"

text \<open>
  The loop \<open>for stage in self._stages\<close> of \<open>execute\<close>. Calling a stage runs its worker
  processes and stores the stage's result; the call is the external process execution,
  a parameter \<open>call\<close> that threads the state \<open>w\<close> of the outside world.
\<close>

fun run_stages ::
  "(TestStage \<Rightarrow> Config \<Rightarrow> 'g System \<Rightarrow> 'w \<Rightarrow> StageResult \<times> 'w)
     \<Rightarrow> Config \<Rightarrow> 'g System \<Rightarrow> TestStage list \<Rightarrow> log_entry list \<Rightarrow> 'w
     \<Rightarrow> TestStage list \<times> log_entry list \<times> 'w" where
  "run_stages call c s [] lg w = ([], lg, w)"
| "run_stages call c s (stage # rest) lg w =
     (let lg1 = lg @ [StageIntro (name stage)];
          (r, w1) = call stage c s w;
          stage1 = stage\<lparr>result := r\<rparr>;
          lg2 = lg1 @ [StageOutro (name stage1)];
          (rest1, lg3, w2) = run_stages call c s rest lg2 w1
      in (stage1 # rest1, lg3, w2))"

text \<open>\<open>TestPlan._log_failures\<close>: the inner loop over the failed processes of one stage.\<close>

fun log_stage_failures :: "string \<Rightarrow> ProcessResult list \<Rightarrow> log_entry list \<Rightarrow> log_entry list" where
  "log_stage_failures nm [] lg = lg"
| "log_stage_failures nm (proc # ps) lg =
     log_stage_failures nm ps (if returncode proc \<noteq> 0 then lg @ [ProcLog nm proc] else lg)"

fun log_all_failures :: "TestStage list \<Rightarrow> log_entry list \<Rightarrow> log_entry list" where
  "log_all_failures [] lg = lg"
| "log_all_failures (stage # rest) lg =
     log_all_failures rest (log_stage_failures (name stage) (procs (result stage)) lg)"

definition log_failures :: "int \<Rightarrow> int \<Rightarrow> TestStage list \<Rightarrow> log_entry list \<Rightarrow> log_entry list" where
  "log_failures n_total n_passed sts lg =
     (if n_total = n_passed then lg
      else log_all_failures sts (lg @ [FailuresBanner]))"

text \<open>\<open>chain.from_iterable(s.result.procs for s in self._stages)\<close>.\<close>

definition all_procs :: "TestStage list \<Rightarrow> ProcessResult list" where
  "all_procs sts = concat (map (\<lambda>s. procs (result s)) sts)"

text \<open>
  What an execution leaves behind: the returned exit code, the log, the stages with
  their results, and the outside world.
\<close>

record 'w Execution =
  exit_code :: int
  logged :: "log_entry list"
  done_stages :: "TestStage list"
  world :: 'w

text \<open>
  \<open>TestPlan.execute\<close>. The locals \<open>total\<close> and \<open>passed\<close> are \<open>n_total\<close> and
  \<open>n_passed\<close> here; \<open>passed\<close> sums the truth values of \<open>returncode == 0\<close>, and the
  result is \<open>int((total - passed) > 0)\<close>.
\<close>

definition execute ::
  "(TestStage \<Rightarrow> Config \<Rightarrow> 'g System \<Rightarrow> 'w \<Rightarrow> StageResult \<times> 'w)
     \<Rightarrow> 'g TestPlan \<Rightarrow> 'w \<Rightarrow> exn + 'w Execution" where
  "execute call plan w =
     (case intro plan of
        Inl e \<Rightarrow> Inl e
      | Inr details \<Rightarrow>
          (let (sts, lg, w1) =
                 run_stages call (plan_config plan) (plan_system plan) (plan_stages plan)
                   [PlanIntro details] w;
               n_total = int (length (all_procs sts));
               n_passed = sum_list (map (\<lambda>proc. if returncode proc = 0 then 1 else 0) (all_procs sts));
               lg1 = lg @ [Rule];
               lg2 = log_failures n_total n_passed sts lg1;
               lg3 = lg2 @ [PlanOutro n_total n_passed]
           in Inr \<lparr>exit_code = (if n_total - n_passed > 0 then 1 else 0),
                   logged = lg3, done_stages = sts, world = w1\<rparr>))"

text \<open>
  The failure report in the words of the specification: one entry per process with a
  non-zero return code, carrying the name of its stage, in stage order and, within a
  stage, in worker order.
\<close>

definition failures_of :: "TestStage list \<Rightarrow> log_entry list" where
  "failures_of sts =
     concat (map (\<lambda>s. map (ProcLog (name s)) (filter (\<lambda>proc. returncode proc \<noteq> 0) (procs (result s)))) sts)"

text \<open>The stage entries of a log, and the stage named by an entry of the failure report.\<close>

fun is_stage_entry :: "log_entry \<Rightarrow> bool" where
  "is_stage_entry (StageIntro nm) = True"
| "is_stage_entry (StageOutro nm) = True"
| "is_stage_entry e = False"

fun reported_stage :: "log_entry \<Rightarrow> string list" where
  "reported_stage (ProcLog nm proc) = [nm]"
| "reported_stage e = []"

section \<open>A concrete run\<close>

text \<open>
  A machine of 8 single-core CPUs without the GPU toolkit, and a plan of three stages:
  the first runs two workers that pass, the second one worker that fails, the third
  no worker. The outside world records the names of the stages called.
\<close>

definition demo_config :: Config where
  "demo_config = \<lparr>omps = 1, ompthreads = 2, utility = 1, cpu_pin = ''strict'',
     requested_workers = 0, features = [''cpus'', ''openmp'', ''cuda''],
     test_files = [''test_inner.py'', ''test_matmul.py'']\<rparr>"

definition demo_system :: "unit System" where
  "demo_system = \<lparr>cpus = [\<lparr>ids = [0]\<rparr>, \<lparr>ids = [1]\<rparr>, \<lparr>ids = [2]\<rparr>, \<lparr>ids = [3]\<rparr>,
                          \<lparr>ids = [4]\<rparr>, \<lparr>ids = [5]\<rparr>, \<lparr>ids = [6]\<rparr>, \<lparr>ids = [7]\<rparr>],
                  gpus = Inl ImportError\<rparr>"

definition demo_STAGES :: "string \<Rightarrow> (Config \<Rightarrow> unit System \<Rightarrow> exn + TestStage) option" where
  "demo_STAGES =
     [''cpus'' \<mapsto> (\<lambda>c s. Inr \<lparr>name = ''CPU'', result = \<lparr>procs = []\<rparr>\<rparr>),
      ''openmp'' \<mapsto> (\<lambda>c s. Inr \<lparr>name = ''OMP'', result = \<lparr>procs = []\<rparr>\<rparr>),
      ''cuda'' \<mapsto> (\<lambda>c s. Inr \<lparr>name = ''GPU'', result = \<lparr>procs = []\<rparr>\<rparr>)]"

definition demo_call :: "TestStage \<Rightarrow> Config \<Rightarrow> unit System \<Rightarrow> string list \<Rightarrow> StageResult \<times> string list" where
  "demo_call stage c s w =
     (\<lparr>procs = (if name stage = ''CPU'' then [\<lparr>returncode = 0\<rparr>, \<lparr>returncode = 0\<rparr>]
                else if name stage = ''OMP'' then [\<lparr>returncode = 1\<rparr>]
                else [])\<rparr>,
      w @ [name stage])"

definition demo_plan :: "unit TestPlan" where
  "demo_plan = \<lparr>plan_config = demo_config, plan_system = demo_system,
     plan_stages = [\<lparr>name = ''CPU'', result = \<lparr>procs = []\<rparr>\<rparr>,
                    \<lparr>name = ''OMP'', result = \<lparr>procs = []\<rparr>\<rparr>,
                    \<lparr>name = ''GPU'', result = \<lparr>procs = []\<rparr>\<rparr>]\<rparr>"

definition demo_execution :: "string list Execution" where
  "demo_execution =
     \<lparr>exit_code = 1,
      logged = [PlanIntro \<lparr>feature_stages = [''cpus'', ''openmp'', ''cuda''], files_per_stage = 2,
                          cpu_count = 8, gpu_count = 0\<rparr>,
                StageIntro ''CPU'', StageOutro ''CPU'',
                StageIntro ''OMP'', StageOutro ''OMP'',
                StageIntro ''GPU'', StageOutro ''GPU'',
                Rule, FailuresBanner, ProcLog ''OMP'' \<lparr>returncode = 1\<rparr>,
                PlanOutro 3 2],
      done_stages = [\<lparr>name = ''CPU'', result = \<lparr>procs = [\<lparr>returncode = 0\<rparr>, \<lparr>returncode = 0\<rparr>]\<rparr>\<rparr>,
             \<lparr>name = ''OMP'', result = \<lparr>procs = [\<lparr>returncode = 1\<rparr>]\<rparr>\<rparr>,
             \<lparr>name = ''GPU'', result = \<lparr>procs = []\<rparr>\<rparr>],
      world = [''CPU'', ''OMP'', ''GPU'']\<rparr>"

section \<open>Worker-count adjustment\<close>

lemma adjust_workers_bounds:
  "adjust_workers a r = Inr w \<Longrightarrow> (r = 0 \<and> w = a) \<or> (r \<noteq> 0 \<and> w = min r a)"
  by (auto simp: adjust_workers_def Let_def split: if_splits)

text \<open>
  Claim C4. For non-negative \<open>available\<close> and \<open>requested\<close>: a positive request is
  clamped to \<open>min available requested\<close>, a request of 0 yields \<open>available\<close>, and the
  fatal configuration error is raised exactly when the request is positive and
  nothing is available.
\<close>

theorem adjust_workers_clamps:
  assumes "0 \<le> available" and "0 \<le> requested"
  shows "(0 < requested \<longrightarrow>
            adjust_workers available requested =
              (if available = 0 then Inl ConfigurationError
               else Inr (min available requested)))
       \<and> adjust_workers available 0 = Inr available
       \<and> ((\<exists>e. adjust_workers available requested = Inl e)
            \<longleftrightarrow> 0 < requested \<and> available = 0)"
  using assms by (auto simp: adjust_workers_def Let_def min_def)

theorem adjust_workers_clamps_witness:
  "adjust_workers 2 5 = Inr 2 \<and> adjust_workers 2 0 = Inr 2
   \<and> \<not> (\<exists>e. adjust_workers 2 5 = Inl e)"
  using adjust_workers_clamps [of 2 5] by simp

section \<open>Shards of the OpenMP stage\<close>

lemma py_range_nat: "0 \<le> a \<Longrightarrow> py_range a b = map int [nat a..<nat b]"
  unfolding py_range_def
  by (rule nth_equalityI) auto

lemma getitem_nat: "j < length cs \<Longrightarrow> getitem cs (int j) = Inr (cs ! j)"
  by (simp add: getitem_def)

lemma chain_ids_nat:
  "\<forall>j\<in>set js. j < length cs \<Longrightarrow> chain_ids cs (map int js) = Inr (concat (map (\<lambda>j. ids (cs ! j)) js))"
  by (induction js) (simp_all add: getitem_nat)

lemma map_nth_segment: "a + k \<le> length cs \<Longrightarrow> map ((!) cs) [a..<a + k] = take k (drop a cs)"
  by (rule nth_equalityI) auto

lemma chain_ids_segment:
  assumes "a + k \<le> length cs"
  shows "chain_ids cs (py_range (int a) (int (a + k))) = Inr (concat (map ids (take k (drop a cs))))"
proof -
  have "py_range (int a) (int (a + k)) = map int [a..<a + k]"
    using py_range_nat [of "int a" "int (a + k)"] by (simp del: of_nat_add)
  moreover have "\<forall>j\<in>set [a..<a + k]. j < length cs"
    using assms by auto
  ultimately have "chain_ids cs (py_range (int a) (int (a + k)))
      = Inr (concat (map (\<lambda>j. ids (cs ! j)) [a..<a + k]))"
    by (simp add: chain_ids_nat)
  also have "map (\<lambda>j. ids (cs ! j)) [a..<a + k] = map ids (map ((!) cs) [a..<a + k])"
    by simp
  also have "\<dots> = map ids (take k (drop a cs))"
    using assms by (simp only: map_nth_segment)
  finally show ?thesis .
qed

lemma build_shards_nat:
  assumes "\<forall>i\<in>set is. (i + 1) * k \<le> length cs"
  shows "build_shards cs (int k) (map int is) = Inr (map (shard_of cs k) is)"
  using assms
proof (induction "is")
  case Nil
  then show ?case by simp
next
  case (Cons i "is")
  have "i * k + k \<le> length cs" using Cons.prems by simp
  then have "chain_ids cs (py_range (int (i * k)) (int (i * k + k)))
      = Inr (concat (map ids (take k (drop (i * k) cs))))"
    by (rule chain_ids_segment)
  moreover have "int i * int k = int (i * k)" "(int i + 1) * int k = int (i * k + k)"
    by (simp_all add: algebra_simps)
  moreover have "build_shards cs (int k) (map int is) = Inr (map (shard_of cs k) is)"
    using Cons by simp
  ultimately show ?case by (simp add: shard_of_def del: of_nat_add of_nat_mult)
qed

lemma compute_spec_returns:
  assumes k: "1 \<le> cores_per_worker config"
    and adj: "adjust_workers (int (length (cpus system)) div cores_per_worker config)
                (requested_workers config) = Inr w"
  shows "compute_spec config system =
           Inr \<lparr>workers = w,
                shards = map (shard_of (cpus system) (nat (cores_per_worker config))) [0..<nat w]\<rparr>"
proof -
  define k where "k = nat (cores_per_worker config)"
  define cs where "cs = cpus system"
  have pk: "cores_per_worker config = int k" and k1: "1 \<le> k"
    using k by (simp_all add: k_def)
  have "w \<le> int (length cs) div int k"
    using adjust_workers_bounds [OF adj] by (auto simp: pk cs_def)
  then have wle: "nat w \<le> length cs div k"
    by (simp add: zdiv_int [symmetric] nat_le_iff)
  have "\<forall>i\<in>set [0..<nat w]. (i + 1) * k \<le> length cs"
  proof
    fix i assume "i \<in> set [0..<nat w]"
    then have "i + 1 \<le> length cs div k" using wle by simp
    then have "(i + 1) * k \<le> (length cs div k) * k" by (rule mult_le_mono1)
    also have "\<dots> \<le> length cs" by simp
    finally show "(i + 1) * k \<le> length cs" .
  qed
  then have "build_shards cs (int k) (map int [0..<nat w]) = Inr (map (shard_of cs k) [0..<nat w])"
    by (rule build_shards_nat)
  moreover have "py_range 0 w = map int [0..<nat w]"
    using py_range_nat [of 0 w] by simp
  ultimately have "build_shards cs (cores_per_worker config) (py_range 0 w)
      = Inr (map (shard_of cs k) [0..<nat w])"
    by (simp add: pk)
  moreover have "cores_per_worker config \<noteq> 0" using k by simp
  ultimately show ?thesis
    using adj by (simp add: compute_spec_def Let_def cs_def [symmetric] k_def [symmetric])
qed

lemma compute_spec_inverse:
  assumes k: "1 \<le> cores_per_worker config"
    and ret: "compute_spec config system = Inr spec"
  shows "adjust_workers (int (length (cpus system)) div cores_per_worker config)
                (requested_workers config) = Inr (workers spec)"
  using assms by (auto simp: compute_spec_def Let_def split: if_splits sum.splits)

lemma single_core_total:
  "\<forall>c\<in>set cs. length (ids c) = 1 \<Longrightarrow> length (concat (map ids cs)) = length cs"
  by (induction cs) simp_all

text \<open>
  Claim C1, as amended. When the per-worker requirement is at least 1 and no worker
  count is requested, \<open>compute_spec\<close> returns, and its worker count is the number
  of CPU entries of the machine divided (rounding down) by the requirement. This is
  the number of usable cores divided by the requirement when every CPU entry has
  exactly one core id.
\<close>

theorem compute_spec_worker_count:
  assumes "1 \<le> cores_per_worker config" and "requested_workers config = 0"
  shows "\<exists>spec. compute_spec config system = Inr spec
           \<and> workers spec = int (length (cpus system)) div cores_per_worker config
           \<and> ((\<forall>c\<in>set (cpus system). length (ids c) = 1) \<longrightarrow>
                 workers spec = total_usable_cores system div cores_per_worker config)"
proof -
  have "adjust_workers (int (length (cpus system)) div cores_per_worker config)
          (requested_workers config) = Inr (int (length (cpus system)) div cores_per_worker config)"
    using assms(2) by (simp add: adjust_workers_def)
  from compute_spec_returns [OF assms(1) this] show ?thesis
    by (simp add: total_usable_cores_def single_core_total)
qed

theorem compute_spec_worker_count_witness:
  "\<exists>spec. compute_spec
       \<lparr>omps = 1, ompthreads = 2, utility = 1, cpu_pin = ''strict'', requested_workers = 0,
         features = [''openmp''], test_files = []\<rparr>
       \<lparr>cpus = [\<lparr>ids = [0]\<rparr>, \<lparr>ids = [1]\<rparr>, \<lparr>ids = [2]\<rparr>, \<lparr>ids = [3]\<rparr>,
                \<lparr>ids = [4]\<rparr>, \<lparr>ids = [5]\<rparr>, \<lparr>ids = [6]\<rparr>, \<lparr>ids = [7]\<rparr>],
         gpus = Inr ([] :: unit list)\<rparr> = Inr spec \<and> workers spec = 2"
proof -
  let ?config = "\<lparr>omps = 1, ompthreads = 2, utility = 1, cpu_pin = ''strict'', requested_workers = 0,
         features = [''openmp''], test_files = []\<rparr>"
  let ?system = "\<lparr>cpus = [\<lparr>ids = [0]\<rparr>, \<lparr>ids = [1]\<rparr>, \<lparr>ids = [2]\<rparr>, \<lparr>ids = [3]\<rparr>,
                \<lparr>ids = [4]\<rparr>, \<lparr>ids = [5]\<rparr>, \<lparr>ids = [6]\<rparr>, \<lparr>ids = [7]\<rparr>],
         gpus = Inr ([] :: unit list)\<rparr>"
  have k: "cores_per_worker ?config = 4" by (simp add: cores_per_worker_def)
  have h1: "1 \<le> cores_per_worker ?config" by (simp add: k)
  have h2: "requested_workers ?config = 0" by simp
  from compute_spec_worker_count [OF h1 h2, of ?system] show ?thesis
    by (auto simp: k)
qed

theorem compute_spec_worker_count_counterexample:
  "compute_spec
       \<lparr>omps = 1, ompthreads = 1, utility = 1, cpu_pin = ''none'', requested_workers = 0,
         features = [''openmp''], test_files = []\<rparr>
       \<lparr>cpus = [\<lparr>ids = [0, 1]\<rparr>, \<lparr>ids = [2, 3]\<rparr>], gpus = Inr ([] :: unit list)\<rparr>
     = Inr \<lparr>workers = 1, shards = [[0, 1, 2, 3]]\<rparr>
   \<and> requested_workers \<lparr>omps = 1, ompthreads = 1, utility = 1, cpu_pin = ''none'', requested_workers = 0,
         features = [''openmp''], test_files = []\<rparr> = 0
   \<and> cores_per_worker \<lparr>omps = 1, ompthreads = 1, utility = 1, cpu_pin = ''none'', requested_workers = 0,
         features = [''openmp''], test_files = []\<rparr> = 2
   \<and> total_usable_cores \<lparr>cpus = [\<lparr>ids = [0, 1]\<rparr>, \<lparr>ids = [2, 3]\<rparr>], gpus = Inr ([] :: unit list)\<rparr> = 4
   \<and> workers \<lparr>workers = 1, shards = [[0, 1, 2, 3]]\<rparr>
       \<noteq> total_usable_cores \<lparr>cpus = [\<lparr>ids = [0, 1]\<rparr>, \<lparr>ids = [2, 3]\<rparr>], gpus = Inr ([] :: unit list)\<rparr>
           div cores_per_worker \<lparr>omps = 1, ompthreads = 1, utility = 1, cpu_pin = ''none'', requested_workers = 0,
         features = [''openmp''], test_files = []\<rparr>"
  by code_simp

lemma single_core_concat:
  "\<forall>c\<in>set cs. length (ids c) = 1 \<Longrightarrow> concat (map ids cs) = map (hd \<circ> ids) cs"
proof (induction cs)
  case Nil
  then show ?case by simp
next
  case (Cons c cs)
  have "length (ids c) = 1" using Cons.prems by simp
  then have "ids c = [hd (ids c)]" by (cases "ids c") simp_all
  with Cons show ?case by simp
qed

lemma single_core_segment:
  assumes "\<forall>c\<in>set cs. length (ids c) = 1"
  shows "concat (map ids (take k (drop n cs))) = take k (drop n (concat (map ids cs)))"
proof -
  have "\<forall>c\<in>set (take k (drop n cs)). length (ids c) = 1"
    using assms by (meson in_set_dropD in_set_takeD)
  then have "concat (map ids (take k (drop n cs))) = map (hd \<circ> ids) (take k (drop n cs))"
    by (rule single_core_concat)
  also have "\<dots> = take k (drop n (map (hd \<circ> ids) cs))"
    by (simp add: take_map drop_map)
  also have "map (hd \<circ> ids) cs = concat (map ids cs)"
    using assms by (simp add: single_core_concat)
  finally show ?thesis .
qed

lemma ids_mono: "set xs \<subseteq> set ys \<Longrightarrow> set (concat (map ids xs)) \<subseteq> set (concat (map ids ys))"
  by auto

lemma ids_append_disjoint:
  "distinct (concat (map ids (xs @ ys))) \<Longrightarrow>
     set (concat (map ids xs)) \<inter> set (concat (map ids ys)) = {}"
  by simp

lemma segments_disjoint:
  assumes d: "distinct (concat (map ids cs))" and le: "a + k \<le> b"
  shows "set (concat (map ids (take k (drop a cs)))) \<inter> set (concat (map ids (take k (drop b cs)))) = {}"
proof -
  have sep: "set (concat (map ids (take b cs))) \<inter> set (concat (map ids (drop b cs))) = {}"
    using ids_append_disjoint [of "take b cs" "drop b cs"] d by (simp only: append_take_drop_id)
  have "take k (drop a cs) = drop a (take (a + k) cs)" by (simp add: drop_take)
  then have "set (take k (drop a cs)) \<subseteq> set (take (a + k) cs)"
    by (simp add: set_drop_subset)
  also have "\<dots> \<subseteq> set (take b cs)" using le by (rule set_take_subset_set_take)
  finally have l: "set (concat (map ids (take k (drop a cs)))) \<subseteq> set (concat (map ids (take b cs)))"
    by (rule ids_mono)
  have "set (take k (drop b cs)) \<subseteq> set (drop b cs)" by (rule set_take_subset)
  then have r: "set (concat (map ids (take k (drop b cs)))) \<subseteq> set (concat (map ids (drop b cs)))"
    by (rule ids_mono)
  from sep l r show ?thesis by blast
qed

lemma compute_spec_shape:
  assumes k: "1 \<le> cores_per_worker config"
    and ret: "compute_spec config system = Inr spec"
  shows "shards spec = map (shard_of (cpus system) (nat (cores_per_worker config))) [0..<nat (workers spec)]"
    and "nat (workers spec) * nat (cores_per_worker config) \<le> length (cpus system)"
proof -
  have adj: "adjust_workers (int (length (cpus system)) div cores_per_worker config)
                (requested_workers config) = Inr (workers spec)"
    using k ret by (rule compute_spec_inverse)
  from compute_spec_returns [OF k adj] ret
  have "spec = \<lparr>workers = workers spec,
      shards = map (shard_of (cpus system) (nat (cores_per_worker config))) [0..<nat (workers spec)]\<rparr>"
    by simp
  then have "shards spec = shards \<lparr>workers = workers spec,
      shards = map (shard_of (cpus system) (nat (cores_per_worker config))) [0..<nat (workers spec)]\<rparr>"
    by (rule arg_cong)
  then show "shards spec = map (shard_of (cpus system) (nat (cores_per_worker config))) [0..<nat (workers spec)]"
    by simp
  define n where "n = nat (cores_per_worker config)"
  have pk: "cores_per_worker config = int n" using k by (simp add: n_def)
  have "workers spec \<le> int (length (cpus system)) div int n"
    using adjust_workers_bounds [OF adj] by (auto simp: pk)
  then have "nat (workers spec) \<le> length (cpus system) div n"
    by (simp add: zdiv_int [symmetric] nat_le_iff)
  then have "nat (workers spec) * n \<le> (length (cpus system) div n) * n"
    by (rule mult_le_mono1)
  also have "\<dots> \<le> length (cpus system)" by simp
  finally show "nat (workers spec) * nat (cores_per_worker config) \<le> length (cpus system)"
    by (simp add: n_def)
qed

lemma segment_length:
  assumes "i < w" and "w * k \<le> length (cs :: 'a list)"
  shows "length (take k (drop (i * k) cs)) = k"
proof -
  have "i + 1 \<le> w" using assms(1) by simp
  then have "(i + 1) * k \<le> w * k" by (rule mult_le_mono1)
  then have "i * k + k \<le> length cs" using assms(2) by simp
  then show ?thesis by simp
qed

lemma build_shards_sorted:
  "build_shards cs p is = Inr shs \<Longrightarrow> sh \<in> set shs \<Longrightarrow> sorted sh"
  by (induction "is" arbitrary: shs) (auto split: sum.splits)

lemma compute_spec_sorted:
  "compute_spec config system = Inr spec \<Longrightarrow> sh \<in> set (shards spec) \<Longrightarrow> sorted sh"
  by (auto simp: compute_spec_def Let_def split: if_splits sum.splits dest: build_shards_sorted)

lemma ids_append_distinct:
  "distinct (concat (map ids (xs @ ys))) \<Longrightarrow>
     distinct (concat (map ids xs)) \<and> distinct (concat (map ids ys))"
  by simp

lemma segment_distinct:
  assumes "distinct (concat (map ids cs))"
  shows "distinct (concat (map ids (take k (drop a cs))))"
proof -
  have "distinct (concat (map ids (take a cs @ drop a cs)))"
    using assms by (simp only: append_take_drop_id)
  then have "distinct (concat (map ids (drop a cs)))"
    by (rule ids_append_distinct [THEN conjunct2])
  then have "distinct (concat (map ids (take k (drop a cs) @ drop k (drop a cs))))"
    by (simp only: append_take_drop_id)
  then show ?thesis
    by (rule ids_append_distinct [THEN conjunct1])
qed

text \<open>
  Claim C2, as amended. For a specification returned by \<open>compute_spec\<close> with a
  per-worker requirement \<open>k\<close> of at least 1 and a non-negative request: there are as
  many shards as workers; shard \<open>i\<close> is the sorted ids of the \<open>k\<close> CPU entries at
  positions \<open>i * k\<close> up to \<open>(i + 1) * k\<close> of the CPU list, and there are exactly
  \<open>k\<close> such entries; on a machine whose CPU entries share no core id, no shard
  repeats an id and no id is in two shards; when every CPU entry has one id every shard
  has \<open>k\<close> ids, \<open>k\<close> different ones when no id is shared; and with no worker there
  is no shard.
\<close>

theorem compute_spec_shard_invariants:
  assumes ret: "compute_spec config system = Inr spec"
    and k: "1 \<le> cores_per_worker config"
    and req: "0 \<le> requested_workers config"
  shows "int (length (shards spec)) = workers spec
       \<and> (\<forall>i<length (shards spec).
             int (length (take (nat (cores_per_worker config))
                            (drop (i * nat (cores_per_worker config)) (cpus system))))
               = cores_per_worker config
           \<and> shards spec ! i =
               sort (concat (map ids (take (nat (cores_per_worker config))
                                        (drop (i * nat (cores_per_worker config)) (cpus system))))))
       \<and> (distinct (concat (map ids (cpus system))) \<longrightarrow>
            (\<forall>sh\<in>set (shards spec). distinct sh)
          \<and> (\<forall>i j. i < j \<and> j < length (shards spec) \<longrightarrow>
               set (shards spec ! i) \<inter> set (shards spec ! j) = {}))
       \<and> ((\<forall>c\<in>set (cpus system). length (ids c) = 1) \<longrightarrow>
            (\<forall>sh\<in>set (shards spec). int (length sh) = cores_per_worker config))
       \<and> (distinct (concat (map ids (cpus system)))
            \<and> (\<forall>c\<in>set (cpus system). length (ids c) = 1) \<longrightarrow>
            (\<forall>sh\<in>set (shards spec). int (card (set sh)) = cores_per_worker config))
       \<and> (workers spec = 0 \<longrightarrow> shards spec = [])"
proof -
  define n where "n = nat (cores_per_worker config)"
  define cs where "cs = cpus system"
  define w where "w = nat (workers spec)"
  have pk: "cores_per_worker config = int n" using k by (simp add: n_def)
  have shape: "shards spec = map (shard_of cs n) [0..<w]"
    and fit: "w * n \<le> length cs"
    using compute_spec_shape [OF k ret] by (simp_all add: n_def cs_def w_def)
  have adj: "adjust_workers (int (length cs) div cores_per_worker config)
                (requested_workers config) = Inr (workers spec)"
    using compute_spec_inverse [OF k ret] by (simp add: cs_def)
  have "0 \<le> int (length cs) div cores_per_worker config"
    using k by (simp add: pos_imp_zdiv_nonneg_iff)
  then have w0: "0 \<le> workers spec"
    using adjust_workers_bounds [OF adj] req by auto
  have c1: "int (length (shards spec)) = workers spec"
    using w0 by (simp add: shape w_def)
  have c2: "int (length (take n (drop (i * n) cs))) = cores_per_worker config
      \<and> shards spec ! i = sort (concat (map ids (take n (drop (i * n) cs))))"
    if "i < length (shards spec)" for i
  proof -
    have i: "i < w" using that by (simp add: shape)
    have "length (take n (drop (i * n) cs)) = n"
      using i fit by (rule segment_length)
    moreover have "shards spec ! i = shard_of cs n i"
      using i by (simp add: shape)
    ultimately show ?thesis by (simp add: pk shard_of_def)
  qed
  have pos: "\<exists>i<w. sh = shard_of cs n i" if "sh \<in> set (shards spec)" for sh
    using that by (auto simp: shape)
  have c3a: "distinct sh" if d: "distinct (concat (map ids cs))" and "sh \<in> set (shards spec)" for sh
  proof -
    from pos [OF that(2)] obtain i where "sh = shard_of cs n i" by blast
    then show ?thesis
      using segment_distinct [OF d, of n "i * n"] by (simp add: shard_of_def)
  qed
  have c3b: "set (shards spec ! i) \<inter> set (shards spec ! j) = {}"
    if d: "distinct (concat (map ids cs))" and ij: "i < j" "j < length (shards spec)" for i j
  proof -
    have "i + 1 \<le> j" using ij by simp
    then have "(i + 1) * n \<le> j * n" by (rule mult_le_mono1)
    then have "i * n + n \<le> j * n" by simp
    from segments_disjoint [OF d this] show ?thesis
      using ij by (simp add: shape shard_of_def)
  qed
  have c4: "int (length sh) = cores_per_worker config"
    if single: "\<forall>c\<in>set cs. length (ids c) = 1" and "sh \<in> set (shards spec)" for sh
  proof -
    from pos [OF that(2)] obtain i where i: "i < w" and sh: "sh = shard_of cs n i" by blast
    have len: "length (take n (drop (i * n) cs)) = n"
      using i fit by (rule segment_length)
    have "\<forall>c\<in>set (take n (drop (i * n) cs)). length (ids c) = 1"
      using single by (meson in_set_dropD in_set_takeD)
    then have "length (concat (map ids (take n (drop (i * n) cs)))) = length (take n (drop (i * n) cs))"
      by (rule single_core_total)
    then have "length (concat (map ids (take n (drop (i * n) cs)))) = n"
      by (simp only: len)
    then show ?thesis by (simp add: sh shard_of_def pk)
  qed
  have c5: "int (card (set sh)) = cores_per_worker config"
    if "distinct (concat (map ids cs))" and "\<forall>c\<in>set cs. length (ids c) = 1"
      and "sh \<in> set (shards spec)" for sh
    using c3a [OF that(1,3)] c4 [OF that(2,3)] by (simp add: distinct_card)
  have c6: "shards spec = []" if "workers spec = 0"
    using that by (simp add: shape w_def)
  from c1 c2 c3a c3b c4 c5 c6 show ?thesis
    unfolding cs_def n_def by blast
qed

lemma scenario_spec:
  "compute_spec
       \<lparr>omps = 1, ompthreads = 2, utility = 1, cpu_pin = ''strict'', requested_workers = 0,
         features = [''openmp''], test_files = []\<rparr>
       \<lparr>cpus = [\<lparr>ids = [0]\<rparr>, \<lparr>ids = [1]\<rparr>, \<lparr>ids = [2]\<rparr>, \<lparr>ids = [3]\<rparr>,
                \<lparr>ids = [4]\<rparr>, \<lparr>ids = [5]\<rparr>, \<lparr>ids = [6]\<rparr>, \<lparr>ids = [7]\<rparr>],
         gpus = Inr ([] :: unit list)\<rparr>
     = Inr \<lparr>workers = 2, shards = [[0, 1, 2, 3], [4, 5, 6, 7]]\<rparr>"
  by code_simp

lemma hyperthread_spec:
  "compute_spec
       \<lparr>omps = 1, ompthreads = 1, utility = 1, cpu_pin = ''none'', requested_workers = 0,
         features = [''openmp''], test_files = []\<rparr>
       \<lparr>cpus = [\<lparr>ids = [0, 1]\<rparr>, \<lparr>ids = [2, 3]\<rparr>], gpus = Inr ([] :: unit list)\<rparr>
     = Inr \<lparr>workers = 1, shards = [[0, 1, 2, 3]]\<rparr>"
  by code_simp

theorem compute_spec_shard_invariants_witness:
  "\<exists>spec. compute_spec
       \<lparr>omps = 1, ompthreads = 2, utility = 1, cpu_pin = ''strict'', requested_workers = 0,
         features = [''openmp''], test_files = []\<rparr>
       \<lparr>cpus = [\<lparr>ids = [0]\<rparr>, \<lparr>ids = [1]\<rparr>, \<lparr>ids = [2]\<rparr>, \<lparr>ids = [3]\<rparr>,
                \<lparr>ids = [4]\<rparr>, \<lparr>ids = [5]\<rparr>, \<lparr>ids = [6]\<rparr>, \<lparr>ids = [7]\<rparr>],
         gpus = Inr ([] :: unit list)\<rparr> = Inr spec
     \<and> int (length (shards spec)) = workers spec
     \<and> shards spec ! 0 = [0, 1, 2, 3] \<and> shards spec ! 1 = [4, 5, 6, 7]
     \<and> distinct (shards spec ! 0) \<and> distinct (shards spec ! 1)
     \<and> set (shards spec ! 0) \<inter> set (shards spec ! 1) = {}
     \<and> int (length (shards spec ! 0)) = 4 \<and> int (length (shards spec ! 1)) = 4
     \<and> int (card (set (shards spec ! 0))) = 4 \<and> int (card (set (shards spec ! 1))) = 4"
proof -
  let ?config = "\<lparr>omps = 1, ompthreads = 2, utility = 1, cpu_pin = ''strict'', requested_workers = 0,
         features = [''openmp''], test_files = []\<rparr>"
  let ?system = "\<lparr>cpus = [\<lparr>ids = [0]\<rparr>, \<lparr>ids = [1]\<rparr>, \<lparr>ids = [2]\<rparr>, \<lparr>ids = [3]\<rparr>,
                \<lparr>ids = [4]\<rparr>, \<lparr>ids = [5]\<rparr>, \<lparr>ids = [6]\<rparr>, \<lparr>ids = [7]\<rparr>],
         gpus = Inr ([] :: unit list)\<rparr>"
  let ?spec = "\<lparr>workers = 2, shards = [[0, 1, 2, 3], [4, 5, 6, 7]]\<rparr>"
  have k: "cores_per_worker ?config = 4" by (simp add: cores_per_worker_def)
  have h1: "1 \<le> cores_per_worker ?config" by (simp add: k)
  have h2: "0 \<le> requested_workers ?config" by simp
  have d: "distinct (concat (map ids (cpus ?system)))" by simp
  have s: "\<forall>c\<in>set (cpus ?system). length (ids c) = 1" by simp
  have m0: "shards ?spec ! 0 \<in> set (shards ?spec)" and m1: "shards ?spec ! 1 \<in> set (shards ?spec)"
    by simp_all
  note inv = compute_spec_shard_invariants [OF scenario_spec h1 h2]
  have c1: "int (length (shards ?spec)) = workers ?spec"
    by (rule inv [THEN conjunct1])
  have pos: "shards ?spec ! i =
               sort (concat (map ids (take (nat (cores_per_worker ?config))
                                        (drop (i * nat (cores_per_worker ?config)) (cpus ?system)))))"
    if "i < length (shards ?spec)" for i
    using inv [THEN conjunct2, THEN conjunct1] that by blast
  have "shards ?spec ! 0 = sort (concat (map ids (take (nat 4) (drop (0 * nat 4) (cpus ?system)))))"
    using pos [of 0] by (simp only: k) simp
  then have p0: "shards ?spec ! 0 = [0, 1, 2, 3]" by simp
  have "shards ?spec ! 1 = sort (concat (map ids (take (nat 4) (drop (1 * nat 4) (cpus ?system)))))"
    using pos [of 1] by (simp only: k) simp
  then have p1: "shards ?spec ! 1 = [4, 5, 6, 7]" by simp
  note dj = inv [THEN conjunct2, THEN conjunct2, THEN conjunct1, THEN mp, OF d]
  have d0: "distinct (shards ?spec ! 0)" and d1: "distinct (shards ?spec ! 1)"
    using dj [THEN conjunct1] m0 m1 by blast+
  have x: "set (shards ?spec ! 0) \<inter> set (shards ?spec ! 1) = {}"
    by (rule dj [THEN conjunct2, rule_format]) simp
  have len: "int (length sh) = cores_per_worker ?config" if "sh \<in> set (shards ?spec)" for sh
    using inv [THEN conjunct2, THEN conjunct2, THEN conjunct2, THEN conjunct1] s that by blast
  have l0: "int (length (shards ?spec ! 0)) = 4" and l1: "int (length (shards ?spec ! 1)) = 4"
    using len [OF m0] len [OF m1] by (simp_all only: k)
  have crd: "int (card (set sh)) = cores_per_worker ?config" if "sh \<in> set (shards ?spec)" for sh
    using inv [THEN conjunct2, THEN conjunct2, THEN conjunct2, THEN conjunct2, THEN conjunct1]
      d s that by blast
  have k0: "int (card (set (shards ?spec ! 0))) = 4" and k1: "int (card (set (shards ?spec ! 1))) = 4"
    using crd [OF m0] crd [OF m1] by (simp_all only: k)
  have "compute_spec ?config ?system = Inr ?spec
     \<and> int (length (shards ?spec)) = workers ?spec
     \<and> shards ?spec ! 0 = [0, 1, 2, 3] \<and> shards ?spec ! 1 = [4, 5, 6, 7]
     \<and> distinct (shards ?spec ! 0) \<and> distinct (shards ?spec ! 1)
     \<and> set (shards ?spec ! 0) \<inter> set (shards ?spec ! 1) = {}
     \<and> int (length (shards ?spec ! 0)) = 4 \<and> int (length (shards ?spec ! 1)) = 4
     \<and> int (card (set (shards ?spec ! 0))) = 4 \<and> int (card (set (shards ?spec ! 1))) = 4"
    by (rule conjI [OF scenario_spec conjI [OF c1 conjI [OF p0 conjI [OF p1 conjI [OF d0
          conjI [OF d1 conjI [OF x conjI [OF l0 conjI [OF l1 conjI [OF k0 k1]]]]]]]]]])
  then show ?thesis by (rule exI [where x = "?spec"])
qed

theorem compute_spec_shard_invariants_counterexample:
  "compute_spec
       \<lparr>omps = 1, ompthreads = 1, utility = 1, cpu_pin = ''none'', requested_workers = 0,
         features = [''openmp''], test_files = []\<rparr>
       \<lparr>cpus = [\<lparr>ids = [0, 1]\<rparr>, \<lparr>ids = [2, 3]\<rparr>], gpus = Inr ([] :: unit list)\<rparr>
     = Inr \<lparr>workers = 1, shards = [[0, 1, 2, 3]]\<rparr>
   \<and> cores_per_worker \<lparr>omps = 1, ompthreads = 1, utility = 1, cpu_pin = ''none'', requested_workers = 0,
         features = [''openmp''], test_files = []\<rparr> = 2
   \<and> int (length (shards \<lparr>workers = 1, shards = [[0, 1, 2, 3]]\<rparr> ! 0)) = 4
   \<and> int (length (shards \<lparr>workers = 1, shards = [[0, 1, 2, 3]]\<rparr> ! 0))
       \<noteq> cores_per_worker \<lparr>omps = 1, ompthreads = 1, utility = 1, cpu_pin = ''none'', requested_workers = 0,
         features = [''openmp''], test_files = []\<rparr>"
  by code_simp

text \<open>
  Claim C3, as amended. Worker \<open>i\<close> is assigned the ids of the CPU entries at
  positions \<open>i * k\<close> up to \<open>(i + 1) * k\<close> of the CPU list, \<open>k\<close> the per-worker
  requirement, in ascending order; when every CPU entry has one id these are the ids
  at those positions of the flattened id sequence. For 8 single-core CPUs 0 to 7,
  strict pinning, one OpenMP group of two threads and one utility thread, the result
  is 2 workers with shards (0,1,2,3) and (4,5,6,7).
\<close>

theorem compute_spec_shard_contents:
  assumes ret: "compute_spec config system = Inr spec"
    and k: "1 \<le> cores_per_worker config"
    and i: "i < length (shards spec)"
  shows "shards spec ! i =
           sort (concat (map ids (take (nat (cores_per_worker config))
                                    (drop (i * nat (cores_per_worker config)) (cpus system)))))
       \<and> ((\<forall>c\<in>set (cpus system). length (ids c) = 1) \<longrightarrow>
            shards spec ! i =
              sort (take (nat (cores_per_worker config))
                      (drop (i * nat (cores_per_worker config)) (concat (map ids (cpus system))))))
       \<and> compute_spec
            \<lparr>omps = 1, ompthreads = 2, utility = 1, cpu_pin = ''strict'', requested_workers = 0,
         features = [''openmp''], test_files = []\<rparr>
            \<lparr>cpus = [\<lparr>ids = [0]\<rparr>, \<lparr>ids = [1]\<rparr>, \<lparr>ids = [2]\<rparr>, \<lparr>ids = [3]\<rparr>,
                \<lparr>ids = [4]\<rparr>, \<lparr>ids = [5]\<rparr>, \<lparr>ids = [6]\<rparr>, \<lparr>ids = [7]\<rparr>],
         gpus = Inr ([] :: unit list)\<rparr>
          = Inr \<lparr>workers = 2, shards = [[0, 1, 2, 3], [4, 5, 6, 7]]\<rparr>"
proof -
  have "shards spec ! i = shard_of (cpus system) (nat (cores_per_worker config)) i"
    using compute_spec_shape(1) [OF k ret] i by simp
  then show ?thesis
    by (simp add: shard_of_def single_core_segment scenario_spec)
qed

theorem compute_spec_shard_contents_witness:
  "shards \<lparr>workers = 2, shards = [[0, 1, 2, 3], [4, 5, 6, 7]]\<rparr> ! 1
     = sort (take 4 (drop 4 (concat (map ids (cpus
          \<lparr>cpus = [\<lparr>ids = [0]\<rparr>, \<lparr>ids = [1]\<rparr>, \<lparr>ids = [2]\<rparr>, \<lparr>ids = [3]\<rparr>,
                \<lparr>ids = [4]\<rparr>, \<lparr>ids = [5]\<rparr>, \<lparr>ids = [6]\<rparr>, \<lparr>ids = [7]\<rparr>],
         gpus = Inr ([] :: unit list)\<rparr>)))))"
proof -
  let ?config = "\<lparr>omps = 1, ompthreads = 2, utility = 1, cpu_pin = ''strict'', requested_workers = 0,
         features = [''openmp''], test_files = []\<rparr>"
  let ?system = "\<lparr>cpus = [\<lparr>ids = [0]\<rparr>, \<lparr>ids = [1]\<rparr>, \<lparr>ids = [2]\<rparr>, \<lparr>ids = [3]\<rparr>,
                \<lparr>ids = [4]\<rparr>, \<lparr>ids = [5]\<rparr>, \<lparr>ids = [6]\<rparr>, \<lparr>ids = [7]\<rparr>],
         gpus = Inr ([] :: unit list)\<rparr>"
  let ?spec = "\<lparr>workers = 2, shards = [[0, 1, 2, 3], [4, 5, 6, 7]]\<rparr>"
  have k: "cores_per_worker ?config = 4" by (simp add: cores_per_worker_def)
  have h1: "1 \<le> cores_per_worker ?config" by (simp add: k)
  have h2: "1 < length (shards ?spec)" by simp
  have s: "\<forall>c\<in>set (cpus ?system). length (ids c) = 1" by simp
  from compute_spec_shard_contents [OF scenario_spec h1 h2] s
  have "shards ?spec ! 1 =
          sort (take (nat (cores_per_worker ?config))
                  (drop (1 * nat (cores_per_worker ?config)) (concat (map ids (cpus ?system)))))"
    by blast
  then show ?thesis by (simp only: k) simp
qed

theorem compute_spec_shard_contents_counterexample:
  "compute_spec
       \<lparr>omps = 1, ompthreads = 1, utility = 1, cpu_pin = ''none'', requested_workers = 0,
         features = [''openmp''], test_files = []\<rparr>
       \<lparr>cpus = [\<lparr>ids = [0, 1]\<rparr>, \<lparr>ids = [2, 3]\<rparr>], gpus = Inr ([] :: unit list)\<rparr>
     = Inr \<lparr>workers = 1, shards = [[0, 1, 2, 3]]\<rparr>
   \<and> cores_per_worker \<lparr>omps = 1, ompthreads = 1, utility = 1, cpu_pin = ''none'', requested_workers = 0,
         features = [''openmp''], test_files = []\<rparr> = 2
   \<and> take 2 (drop (0 * 2) (concat (map ids (cpus
          \<lparr>cpus = [\<lparr>ids = [0, 1]\<rparr>, \<lparr>ids = [2, 3]\<rparr>], gpus = Inr ([] :: unit list)\<rparr>)))) = [0, 1]
   \<and> set (shards \<lparr>workers = 1, shards = [[0, 1, 2, 3]]\<rparr> ! 0) \<noteq> set [0, 1 :: int]"
  by code_simp

section \<open>Arguments of a shard\<close>

lemma digit_char_digit: "d < 10 \<Longrightarrow> digit_char d \<in> set ''0123456789''"
  unfolding digit_char_def by (rule nth_mem) simp

lemma str_nat_head: "\<exists>d ds. str_nat n = d # ds \<and> d \<in> set ''0123456789''"
proof (induction n rule: str_nat.induct)
  case (1 n)
  show ?case
  proof (cases "n < 10")
    case True
    then show ?thesis
      using digit_char_digit [of n] by (simp add: str_nat.simps [of n])
  next
    case False
    with 1 obtain d ds where "str_nat (n div 10) = d # ds" "d \<in> set ''0123456789''"
      by blast
    with False show ?thesis
      by (simp add: str_nat.simps [of n])
  qed
qed

lemma str_not_flag: "str i \<noteq> ''--cpu-bind''"
proof (cases "i < 0")
  case True
  obtain d ds where "str_nat (nat (- i)) = d # ds" "d \<in> set ''0123456789''"
    using str_nat_head by blast
  with True show ?thesis by (auto simp: str_def)
next
  case False
  obtain d ds where "str_nat (nat i) = d # ds" "d \<in> set ''0123456789''"
    using str_nat_head by blast
  with False show ?thesis by (auto simp: str_def)
qed

text \<open>
  Claim C8. \<open>shard_args\<close> begins with \<open>--omps\<close>, the OpenMP group count,
  \<open>--ompthreads\<close> and the thread count; \<open>--cpu-bind\<close> and the comma-joined ids of
  the shard follow exactly when the pinning mode is not \<open>none\<close>; and a shard produced
  by \<open>compute_spec\<close> is in ascending order.
\<close>

theorem shard_args_shape:
  "take 4 (shard_args shard config)
     = [''--omps'', str (omps config), ''--ompthreads'', str (ompthreads config)]
   \<and> (''--cpu-bind'' \<in> set (shard_args shard config) \<longleftrightarrow> cpu_pin config \<noteq> ''none'')
   \<and> drop 4 (shard_args shard config)
       = (if cpu_pin config \<noteq> ''none'' then [''--cpu-bind'', str_join '','' (map str shard)] else [])
   \<and> (compute_spec config system = Inr spec \<and> shard \<in> set (shards spec) \<longrightarrow> sorted shard)"
  using str_not_flag [of "omps config"] str_not_flag [of "ompthreads config"]
  by (auto simp: shard_args_def Let_def dest: compute_spec_sorted)

theorem shard_args_shape_witness:
  "shard_args [4, 5, 6, 7]
       \<lparr>omps = 1, ompthreads = 2, utility = 1, cpu_pin = ''strict'', requested_workers = 0,
         features = [''openmp''], test_files = []\<rparr>
     = [''--omps'', ''1'', ''--ompthreads'', ''2'', ''--cpu-bind'', ''4,5,6,7'']
   \<and> sorted [4, 5, 6, 7 :: int]"
proof -
  let ?config = "\<lparr>omps = 1, ompthreads = 2, utility = 1, cpu_pin = ''strict'', requested_workers = 0,
         features = [''openmp''], test_files = []\<rparr>"
  let ?system = "\<lparr>cpus = [\<lparr>ids = [0]\<rparr>, \<lparr>ids = [1]\<rparr>, \<lparr>ids = [2]\<rparr>, \<lparr>ids = [3]\<rparr>,
                \<lparr>ids = [4]\<rparr>, \<lparr>ids = [5]\<rparr>, \<lparr>ids = [6]\<rparr>, \<lparr>ids = [7]\<rparr>],
         gpus = Inr ([] :: unit list)\<rparr>"
  let ?spec = "\<lparr>workers = 2, shards = [[0, 1, 2, 3], [4, 5, 6, 7]]\<rparr>"
  let ?args = "shard_args [4, 5, 6, 7] ?config"
  note sh = shard_args_shape [of "[4, 5, 6, 7]" ?config ?system ?spec]
  have pin: "cpu_pin ?config \<noteq> ''none''" by simp
  have t: "take 4 ?args = [''--omps'', str (omps ?config), ''--ompthreads'', str (ompthreads ?config)]"
    by (rule sh [THEN conjunct1])
  have "drop 4 ?args = (if cpu_pin ?config \<noteq> ''none''
                         then [''--cpu-bind'', str_join '','' (map str [4, 5, 6, 7])] else [])"
    by (rule sh [THEN conjunct2, THEN conjunct2, THEN conjunct1])
  then have d: "drop 4 ?args = [''--cpu-bind'', str_join '','' (map str [4, 5, 6, 7])]"
    by (simp only: pin not_False_eq_True if_True)
  have "?args = take 4 ?args @ drop 4 ?args"
    by (simp only: append_take_drop_id)
  then have "?args = [''--omps'', str (omps ?config), ''--ompthreads'', str (ompthreads ?config)]
                       @ [''--cpu-bind'', str_join '','' (map str [4, 5, 6, 7])]"
    by (simp only: t d)
  moreover have "[''--omps'', str (omps ?config), ''--ompthreads'', str (ompthreads ?config)]
                       @ [''--cpu-bind'', str_join '','' (map str [4, 5, 6, 7])]
                 = [''--omps'', ''1'', ''--ompthreads'', ''2'', ''--cpu-bind'', ''4,5,6,7'']"
    by code_simp
  ultimately have a: "?args = [''--omps'', ''1'', ''--ompthreads'', ''2'', ''--cpu-bind'', ''4,5,6,7'']"
    by (rule trans)
  have "compute_spec ?config ?system = Inr ?spec \<and> [4, 5, 6, 7] \<in> set (shards ?spec)"
    using scenario_spec by simp
  with sh [THEN conjunct2, THEN conjunct2, THEN conjunct2] have b: "sorted [4, 5, 6, 7 :: int]"
    by (rule mp)
  show ?thesis by (rule conjI [OF a b])
qed

section \<open>Properties of the test plan\<close>

lemma log_stage_failures_eq:
  "log_stage_failures nm ps lg = lg @ map (ProcLog nm) (filter (\<lambda>proc. returncode proc \<noteq> 0) ps)"
  by (induction ps arbitrary: lg) simp_all

lemma log_all_failures_eq: "log_all_failures sts lg = lg @ failures_of sts"
  by (induction sts arbitrary: lg) (simp_all add: failures_of_def log_stage_failures_eq)

lemma run_stages_names:
  "map name (fst (run_stages call c s sts lg w)) = map name sts"
  by (induction sts arbitrary: lg w) (simp_all add: Let_def case_prod_beta)

lemma run_stages_log:
  "fst (snd (run_stages call c s sts lg w)) =
     lg @ concat (map (\<lambda>st. [StageIntro (name st), StageOutro (name st)]) sts)"
  by (induction sts arbitrary: lg w) (simp_all add: Let_def case_prod_beta)

lemma run_stages_world:
  "snd (snd (run_stages call c s sts lg w)) = foldl (\<lambda>v st. snd (call st c s v)) w sts"
  by (induction sts arbitrary: lg w) (simp_all add: Let_def case_prod_beta)

lemma run_stages_nth:
  "i < length sts \<Longrightarrow>
     fst (run_stages call c s sts lg w) ! i =
       (sts ! i)\<lparr>result := fst (call (sts ! i) c s (foldl (\<lambda>v st. snd (call st c s v)) w (take i sts)))\<rparr>"
proof (induction sts arbitrary: lg w i)
  case Nil
  then show ?case by simp
next
  case (Cons st sts)
  show ?case
  proof (cases i)
    case 0
    then show ?thesis by (simp add: Let_def case_prod_beta)
  next
    case (Suc j)
    then have "j < length sts" using Cons.prems by simp
    from Cons.IH [OF this] Suc show ?thesis
      by (simp add: Let_def case_prod_beta)
  qed
qed

lemma passed_count:
  "sum_list (map (\<lambda>proc. if returncode proc = 0 then 1 else 0) ps)
     = int (length (filter (\<lambda>proc. returncode proc = 0) ps))"
  by (induction ps) simp_all

lemma failed_count:
  "int (length ps) - int (length (filter (\<lambda>proc. returncode proc = 0) ps))
     = int (length (filter (\<lambda>proc. returncode proc \<noteq> 0) ps))"
  using sum_length_filter_compl [of "\<lambda>proc. returncode proc = 0" ps] by simp

lemma failures_of_length:
  "length (failures_of sts) = length (filter (\<lambda>proc. returncode proc \<noteq> 0) (all_procs sts))"
  by (induction sts) (simp_all add: failures_of_def all_procs_def)

lemma execute_eq:
  assumes "intro plan = Inr d"
  shows "execute call plan w =
    (let r = run_stages call (plan_config plan) (plan_system plan) (plan_stages plan) [PlanIntro d] w;
         sts = fst r;
         n_total = int (length (all_procs sts));
         n_passed = int (length (filter (\<lambda>proc. returncode proc = 0) (all_procs sts)))
     in Inr \<lparr>exit_code = (if n_total - n_passed > 0 then 1 else 0),
             logged = [PlanIntro d]
                @ concat (map (\<lambda>st. [StageIntro (name st), StageOutro (name st)]) (plan_stages plan))
                @ [Rule]
                @ (if n_total = n_passed then [] else FailuresBanner # failures_of sts)
                @ [PlanOutro n_total n_passed],
             done_stages = sts,
             world = foldl (\<lambda>v st. snd (call st (plan_config plan) (plan_system plan) v)) w (plan_stages plan)\<rparr>)"
proof -
  obtain sts lg w1 where r: "run_stages call (plan_config plan) (plan_system plan) (plan_stages plan) [PlanIntro d] w = (sts, lg, w1)"
    by (cases "run_stages call (plan_config plan) (plan_system plan) (plan_stages plan) [PlanIntro d] w") auto
  have lg: "lg = [PlanIntro d] @ concat (map (\<lambda>st. [StageIntro (name st), StageOutro (name st)]) (plan_stages plan))"
    using run_stages_log [of call "plan_config plan" "plan_system plan" "plan_stages plan" "[PlanIntro d]" w]
    by (simp add: r)
  have w1: "w1 = foldl (\<lambda>v st. snd (call st (plan_config plan) (plan_system plan) v)) w (plan_stages plan)"
    using run_stages_world [of call "plan_config plan" "plan_system plan" "plan_stages plan" "[PlanIntro d]" w]
    by (simp add: r)
  show ?thesis
    by (simp add: execute_def assms r Let_def passed_count log_failures_def log_all_failures_eq lg w1)
qed

lemma demo_init: "TestPlan_init demo_STAGES demo_config demo_system = Inr demo_plan"
  by code_simp

lemma demo_run: "execute demo_call demo_plan [] = Inr demo_execution"
  by code_simp

lemma execute_returns_intro:
  "execute call plan w = Inr out \<Longrightarrow> \<exists>d. intro plan = Inr d"
  by (cases "intro plan") (simp_all add: execute_def)

lemma execute_raises:
  "(\<exists>e. execute call plan w = Inl e) \<longleftrightarrow> (\<exists>e. intro plan = Inl e)"
  by (cases "intro plan") (simp_all add: execute_def Let_def case_prod_beta)

lemma intro_raises:
  "(\<exists>e. intro plan = Inl e) \<longleftrightarrow> (\<exists>e. gpus (plan_system plan) = Inl e \<and> e \<noteq> ImportError)"
  by (auto simp: intro_def Let_def split: sum.splits if_splits)

lemma length_filter_all:
  "length (filter P xs) = length xs \<longleftrightarrow> (\<forall>x\<in>set xs. P x)"
proof (induction xs)
  case Nil
  then show ?case by simp
next
  case (Cons x xs)
  have "length (filter P xs) \<noteq> Suc (length xs)"
    using length_filter_le [of P xs] by linarith
  with Cons show ?case by auto
qed

lemma no_failures_iff:
  "int (length ps) = int (length (filter (\<lambda>proc. returncode proc = 0) ps))
     \<longleftrightarrow> (\<forall>proc\<in>set ps. returncode proc = 0)"
  using length_filter_all [of "\<lambda>proc. returncode proc = 0" ps] by auto

lemma set_all_procs: "set (all_procs sts) = (\<Union>st\<in>set sts. set (procs (result st)))"
  by (simp add: all_procs_def)

text \<open>
  Claim C5. When \<open>execute\<close> returns, the exit code is 0 exactly when every process of
  every stage has return code 0, and it is 1 otherwise; with no process at all it is 0;
  no other value is returned. \<open>execute\<close> raises only when the GPU query raises
  something other than \<open>ImportError\<close>.
\<close>

theorem execute_exit_code:
  "(execute call plan w = Inr out \<longrightarrow>
       (exit_code out = 0 \<longleftrightarrow> (\<forall>st\<in>set (done_stages out). \<forall>proc\<in>set (procs (result st)). returncode proc = 0))
     \<and> (exit_code out \<noteq> 0 \<longrightarrow> exit_code out = 1)
     \<and> (all_procs (done_stages out) = [] \<longrightarrow> exit_code out = 0))
   \<and> ((\<exists>e. execute call plan w = Inl e)
          \<longleftrightarrow> (\<exists>e. gpus (plan_system plan) = Inl e \<and> e \<noteq> ImportError))"
proof (intro conjI impI)
  assume ret: "execute call plan w = Inr out"
  from execute_returns_intro [OF ret] obtain d where d: "intro plan = Inr d" ..
  define sts where "sts = fst (run_stages call (plan_config plan) (plan_system plan) (plan_stages plan) [PlanIntro d] w)"
  define n_total where "n_total = int (length (all_procs sts))"
  define n_passed where "n_passed = int (length (filter (\<lambda>proc. returncode proc = 0) (all_procs sts)))"
  have code: "exit_code out = (if n_total - n_passed > 0 then 1 else 0)" and done_stages: "done_stages out = sts"
    using ret unfolding execute_eq [OF d] Let_def sts_def n_total_def n_passed_def by auto
  have le: "n_passed \<le> n_total"
    by (simp add: n_total_def n_passed_def)
  have all: "n_total = n_passed \<longleftrightarrow> (\<forall>proc\<in>set (all_procs sts). returncode proc = 0)"
    unfolding n_total_def n_passed_def by (rule no_failures_iff)
  show "exit_code out = 0 \<longleftrightarrow> (\<forall>st\<in>set (done_stages out). \<forall>proc\<in>set (procs (result st)). returncode proc = 0)"
    using le all by (auto simp: code done_stages set_all_procs)
  show "exit_code out = 1" if "exit_code out \<noteq> 0"
    using that by (simp add: code split: if_splits)
  show "exit_code out = 0" if "all_procs (done_stages out) = []"
    using that by (simp add: code done_stages n_total_def n_passed_def)
next
  show "(\<exists>e. execute call plan w = Inl e)
          \<longleftrightarrow> (\<exists>e. gpus (plan_system plan) = Inl e \<and> e \<noteq> ImportError)"
    by (simp only: execute_raises intro_raises)
qed

theorem execute_exit_code_witness:
  "execute demo_call demo_plan [] = Inr demo_execution
   \<and> exit_code demo_execution = 1
   \<and> \<not> (\<forall>st\<in>set (done_stages demo_execution). \<forall>proc\<in>set (procs (result st)). returncode proc = 0)
   \<and> \<not> (\<exists>e. execute demo_call demo_plan [] = Inl e)"
proof -
  note at_demo = execute_exit_code [of demo_call demo_plan "[]" demo_execution]
  have code: "exit_code demo_execution = 1" by (simp add: demo_execution_def)
  from at_demo demo_run
  have "exit_code demo_execution = 0
          \<longleftrightarrow> (\<forall>st\<in>set (done_stages demo_execution). \<forall>proc\<in>set (procs (result st)). returncode proc = 0)"
    by blast
  with code have fails: "\<not> (\<forall>st\<in>set (done_stages demo_execution). \<forall>proc\<in>set (procs (result st)). returncode proc = 0)"
    by simp
  have "\<not> (\<exists>e. execute demo_call demo_plan [] = Inl e)"
    by (simp add: demo_run)
  with demo_run code fails show ?thesis by blast
qed

text \<open>
  Claim C10. In every execution that returns, the closing summary carries the total,
  the length of the sequence of all processes, and the passed count, the number of
  those with return code 0, and \<open>0 \<le> passed \<le> total\<close>.
\<close>

theorem passed_le_total:
  assumes "execute call plan w = Inr out"
  shows "\<exists>n_total n_passed.
            last (logged out) = PlanOutro n_total n_passed
          \<and> n_total = int (length (all_procs (done_stages out)))
          \<and> n_passed = int (length (filter (\<lambda>proc. returncode proc = 0) (all_procs (done_stages out))))
          \<and> 0 \<le> n_passed \<and> n_passed \<le> n_total"
proof -
  from execute_returns_intro [OF assms] obtain d where d: "intro plan = Inr d" ..
  show ?thesis
    using assms unfolding execute_eq [OF d] Let_def by auto
qed

theorem passed_le_total_witness:
  "last (logged demo_execution) = PlanOutro 3 2
   \<and> int (length (all_procs (done_stages demo_execution))) = 3
   \<and> int (length (filter (\<lambda>proc. returncode proc = 0) (all_procs (done_stages demo_execution)))) = 2"
proof -
  from passed_le_total [OF demo_run] obtain n_total n_passed where
    l: "last (logged demo_execution) = PlanOutro n_total n_passed"
    and t: "n_total = int (length (all_procs (done_stages demo_execution)))"
    and p: "n_passed = int (length (filter (\<lambda>proc. returncode proc = 0) (all_procs (done_stages demo_execution))))"
    by blast
  have "last (logged demo_execution) = PlanOutro 3 2" by (simp add: demo_execution_def)
  with l have "n_total = 3" "n_passed = 2" by simp_all
  with l t p show ?thesis by simp
qed

text \<open>
  Claim C9. When the GPU query raises \<open>ImportError\<close>, the introductory banner reports
  0 GPUs (and the number of CPU entries), and \<open>execute\<close> returns with that banner as
  the first entry of its log.
\<close>

theorem intro_without_gpu_toolkit:
  assumes "gpus (plan_system plan) = Inl ImportError"
  shows "\<exists>d. intro plan = Inr d \<and> gpu_count d = 0
            \<and> cpu_count d = length (cpus (plan_system plan))
            \<and> (\<exists>out. execute call plan w = Inr out \<and> hd (logged out) = PlanIntro d)"
proof -
  define d where "d = \<lparr>feature_stages = features (plan_config plan),
                files_per_stage = length (test_files (plan_config plan)),
                cpu_count = length (cpus (plan_system plan)),
                gpu_count = 0\<rparr>"
  have i: "intro plan = Inr d"
    using assms by (simp add: intro_def d_def)
  have "\<exists>out. execute call plan w = Inr out \<and> hd (logged out) = PlanIntro d"
    unfolding execute_eq [OF i] Let_def by simp
  with i show ?thesis by (auto simp: d_def)
qed

theorem intro_without_gpu_toolkit_witness:
  "\<exists>d. intro demo_plan = Inr d \<and> gpu_count d = 0 \<and> cpu_count d = 8
      \<and> (\<exists>out. execute demo_call demo_plan [] = Inr out \<and> hd (logged out) = PlanIntro d)"
proof -
  have g: "gpus (plan_system demo_plan) = Inl ImportError"
    by (simp add: demo_plan_def demo_system_def)
  have c: "length (cpus (plan_system demo_plan)) = 8"
    by (simp add: demo_plan_def demo_system_def)
  from intro_without_gpu_toolkit [OF g, of demo_call "[]"] show ?thesis
    by (simp only: c)
qed

lemma failures_of_Nil: "failures_of [] = []"
  by (simp add: failures_of_def)

lemma failures_of_Cons:
  "failures_of (st # sts) =
     map (ProcLog (name st)) (filter (\<lambda>proc. returncode proc \<noteq> 0) (procs (result st))) @ failures_of sts"
  by (simp add: failures_of_def)

lemma failures_of_empty:
  assumes "int (length (all_procs sts)) = int (length (filter (\<lambda>proc. returncode proc = 0) (all_procs sts)))"
  shows "failures_of sts = []"
proof -
  have "int (length (failures_of sts)) = 0"
    using failed_count [of "all_procs sts"] assms by (simp add: failures_of_length)
  then show ?thesis by simp
qed

lemma stage_entries_filter:
  "filter is_stage_entry (concat (map (\<lambda>st. [StageIntro (name st), StageOutro (name st)]) sts))
     = concat (map (\<lambda>st. [StageIntro (name st), StageOutro (name st)]) sts)"
  by (induction sts) simp_all

lemma stage_entries_reported:
  "concat (map reported_stage (concat (map (\<lambda>st. [StageIntro (name st), StageOutro (name st)]) sts))) = []"
  by (induction sts) simp_all

lemma stage_entries_members:
  "e \<in> set (concat (map (\<lambda>st. [StageIntro (name st), StageOutro (name st)]) sts)) \<Longrightarrow> is_stage_entry e"
  by (induction sts) auto

lemma failures_of_filter: "filter is_stage_entry (failures_of sts) = []"
  by (induction sts) (simp_all add: failures_of_Nil failures_of_Cons filter_map comp_def)

lemma proc_entries_reported:
  "concat (map (reported_stage \<circ> ProcLog nm) ps) = replicate (length ps) nm"
  by (induction ps) simp_all

lemma failures_of_reported:
  "concat (map reported_stage (failures_of sts)) =
     concat (map (\<lambda>st. replicate (length (filter (\<lambda>proc. returncode proc \<noteq> 0) (procs (result st)))) (name st)) sts)"
  by (induction sts) (simp_all add: failures_of_Nil failures_of_Cons proc_entries_reported)

lemma make_stages_order:
  "make_stages STAGES c s fs = Inr sts \<Longrightarrow>
     list_all2 (\<lambda>feature st. \<exists>mk. STAGES feature = Some mk \<and> mk c s = Inr st) fs sts"
  by (induction fs arbitrary: sts) (auto split: option.splits sum.splits)

text \<open>
  Claim C6. The log of an execution is the narration of the stages, the rule, the
  failure report and the closing summary. The report is empty exactly when total and
  passed agree; otherwise it is the banner followed by \<open>failures_of\<close> the stages: one
  entry per process with a non-zero return code, with the name of its stage, in stage
  order and, within a stage, in worker order; there are total minus passed of them.
\<close>

theorem failure_report:
  assumes "execute call plan w = Inr out"
  shows "\<exists>pre report n_total n_passed.
            logged out = pre @ [Rule] @ report @ [PlanOutro n_total n_passed]
          \<and> Rule \<notin> set pre \<and> FailuresBanner \<notin> set pre
          \<and> concat (map reported_stage pre) = []
          \<and> n_total = int (length (all_procs (done_stages out)))
          \<and> n_passed = int (length (filter (\<lambda>proc. returncode proc = 0) (all_procs (done_stages out))))
          \<and> (report = [] \<longleftrightarrow> n_total = n_passed)
          \<and> (n_total \<noteq> n_passed \<longrightarrow> report = FailuresBanner # failures_of (done_stages out))
          \<and> int (length (failures_of (done_stages out))) = n_total - n_passed"
proof -
  from execute_returns_intro [OF assms] obtain d where d: "intro plan = Inr d" ..
  define sts where "sts = fst (run_stages call (plan_config plan) (plan_system plan) (plan_stages plan) [PlanIntro d] w)"
  define n_total where "n_total = int (length (all_procs sts))"
  define n_passed where "n_passed = int (length (filter (\<lambda>proc. returncode proc = 0) (all_procs sts)))"
  define pre where "pre = PlanIntro d # concat (map (\<lambda>st. [StageIntro (name st), StageOutro (name st)]) (plan_stages plan))"
  define report where "report = (if n_total = n_passed then [] else FailuresBanner # failures_of sts)"
  have lg: "logged out = pre @ [Rule] @ report @ [PlanOutro n_total n_passed]"
    and fin: "done_stages out = sts"
    using assms unfolding execute_eq [OF d] Let_def sts_def n_total_def n_passed_def pre_def report_def
    by auto
  have p1: "Rule \<notin> set pre" "FailuresBanner \<notin> set pre"
    using stage_entries_members [of Rule "plan_stages plan"]
      stage_entries_members [of FailuresBanner "plan_stages plan"]
    by (auto simp: pre_def)
  have p2: "concat (map reported_stage pre) = []"
    by (simp add: pre_def stage_entries_reported)
  have r1: "report = [] \<longleftrightarrow> n_total = n_passed"
    by (simp add: report_def)
  have r2: "report = FailuresBanner # failures_of sts" if "n_total \<noteq> n_passed"
    using that by (simp add: report_def)
  have r3: "int (length (failures_of sts)) = n_total - n_passed"
    using failed_count [of "all_procs sts"]
    by (simp add: failures_of_length n_total_def n_passed_def)
  from lg p1 p2 r1 r2 r3 show ?thesis
    unfolding fin n_total_def [symmetric] n_passed_def [symmetric] by blast
qed

theorem failure_report_witness:
  "execute demo_call demo_plan [] = Inr demo_execution
   \<and> int (length (failures_of (done_stages demo_execution))) = 3 - 2
   \<and> failures_of (done_stages demo_execution) = [ProcLog ''OMP'' \<lparr>returncode = 1\<rparr>]"
proof -
  from failure_report [OF demo_run] obtain n_total n_passed where
    t: "n_total = int (length (all_procs (done_stages demo_execution)))"
    and p: "n_passed = int (length (filter (\<lambda>proc. returncode proc = 0) (all_procs (done_stages demo_execution))))"
    and n: "int (length (failures_of (done_stages demo_execution))) = n_total - n_passed"
    by blast
  have "n_total = 3" "n_passed = 2"
    by (simp_all add: t p demo_execution_def all_procs_def)
  with n have "int (length (failures_of (done_stages demo_execution))) = 3 - 2" by simp
  moreover have "failures_of (done_stages demo_execution) = [ProcLog ''OMP'' \<lparr>returncode = 1\<rparr>]"
    by (simp add: demo_execution_def failures_of_def)
  ultimately show ?thesis using demo_run by simp
qed

text \<open>
  Claim C7. The stages of a plan are constructed from \<open>config.features\<close>, one per
  feature and in that order; \<open>execute\<close> runs them in that order, each call starting
  from the world the previous call left, and narrates them in that order; and the
  failure report names the stages in that order.
\<close>

theorem stage_order_preserved:
  assumes init: "TestPlan_init STAGES c s = Inr plan"
    and run: "execute call plan w = Inr out"
  shows "list_all2 (\<lambda>feature st. \<exists>mk. STAGES feature = Some mk \<and> mk c s = Inr st)
           (features c) (plan_stages plan)
       \<and> map name (done_stages out) = map name (plan_stages plan)
       \<and> filter is_stage_entry (logged out)
           = concat (map (\<lambda>st. [StageIntro (name st), StageOutro (name st)]) (plan_stages plan))
       \<and> world out = foldl (\<lambda>v st. snd (call st c s v)) w (plan_stages plan)
       \<and> (\<forall>i<length (plan_stages plan).
             done_stages out ! i =
               (plan_stages plan ! i)\<lparr>result :=
                  fst (call (plan_stages plan ! i) c s
                         (foldl (\<lambda>v st. snd (call st c s v)) w (take i (plan_stages plan))))\<rparr>)
       \<and> concat (map reported_stage (logged out))
           = concat (map (\<lambda>st. replicate
                                  (length (filter (\<lambda>proc. returncode proc \<noteq> 0) (procs (result st))))
                                  (name st))
                       (done_stages out))"
proof -
  from init obtain sts0 where mk: "make_stages STAGES c s (features c) = Inr sts0"
    and plan: "plan = \<lparr>plan_config = c, plan_system = s, plan_stages = sts0\<rparr>"
    by (auto simp: TestPlan_init_def split: sum.splits)
  have pc: "plan_config plan = c" and ps: "plan_system plan = s" and pst: "plan_stages plan = sts0"
    by (simp_all add: plan)
  from execute_returns_intro [OF run] obtain d where d: "intro plan = Inr d" ..
  define sts where "sts = fst (run_stages call c s sts0 [PlanIntro d] w)"
  define n_total where "n_total = int (length (all_procs sts))"
  define n_passed where "n_passed = int (length (filter (\<lambda>proc. returncode proc = 0) (all_procs sts)))"
  define report where "report = (if n_total = n_passed then [] else FailuresBanner # failures_of sts)"
  define entries where "entries = concat (map (\<lambda>st. [StageIntro (name st), StageOutro (name st)]) sts0)"
  have lg: "logged out = [PlanIntro d] @ entries @ [Rule] @ report @ [PlanOutro n_total n_passed]"
    and fin: "done_stages out = sts"
    and wd: "world out = foldl (\<lambda>v st. snd (call st c s v)) w sts0"
    using run unfolding execute_eq [OF d] Let_def pc ps pst sts_def n_total_def n_passed_def
      report_def entries_def
    by auto
  have a1: "list_all2 (\<lambda>feature st. \<exists>mk. STAGES feature = Some mk \<and> mk c s = Inr st) (features c) sts0"
    using mk by (rule make_stages_order)
  have a2: "map name sts = map name sts0"
    unfolding sts_def by (rule run_stages_names)
  have f1: "filter is_stage_entry report = []"
    by (simp add: report_def failures_of_filter)
  have a3: "filter is_stage_entry (logged out) = entries"
    by (simp add: lg f1) (simp add: entries_def stage_entries_filter)
  have a5: "sts ! i = (sts0 ! i)\<lparr>result :=
                  fst (call (sts0 ! i) c s (foldl (\<lambda>v st. snd (call st c s v)) w (take i sts0)))\<rparr>"
    if "i < length sts0" for i
    unfolding sts_def using that by (rule run_stages_nth)
  have "failures_of sts = []" if "n_total = n_passed"
    using that unfolding n_total_def n_passed_def by (rule failures_of_empty)
  then have "concat (map reported_stage report) = concat (map reported_stage (failures_of sts))"
    by (simp add: report_def)
  then have a6: "concat (map reported_stage (logged out))
      = concat (map (\<lambda>st. replicate
                                  (length (filter (\<lambda>proc. returncode proc \<noteq> 0) (procs (result st))))
                                  (name st)) sts)"
    by (simp add: lg entries_def stage_entries_reported failures_of_reported)
  from a1 a2 a3 wd a5 a6 show ?thesis
    unfolding fin pst entries_def by blast
qed

theorem stage_order_preserved_witness:
  "map name (done_stages demo_execution) = [''CPU'', ''OMP'', ''GPU'']
   \<and> filter is_stage_entry (logged demo_execution)
       = [StageIntro ''CPU'', StageOutro ''CPU'', StageIntro ''OMP'', StageOutro ''OMP'',
          StageIntro ''GPU'', StageOutro ''GPU'']
   \<and> world demo_execution = [''CPU'', ''OMP'', ''GPU'']
   \<and> concat (map reported_stage (logged demo_execution)) = [''OMP'']"
proof -
  note ord = stage_order_preserved [OF demo_init demo_run]
  have st: "plan_stages demo_plan = [\<lparr>name = ''CPU'', result = \<lparr>procs = []\<rparr>\<rparr>,
                    \<lparr>name = ''OMP'', result = \<lparr>procs = []\<rparr>\<rparr>,
                    \<lparr>name = ''GPU'', result = \<lparr>procs = []\<rparr>\<rparr>]"
    by (simp add: demo_plan_def)
  from ord have "map name (done_stages demo_execution) = map name (plan_stages demo_plan)"
    by (rule conjunct1 [OF conjunct2])
  then have c1: "map name (done_stages demo_execution) = [''CPU'', ''OMP'', ''GPU'']"
    by (simp add: st)
  from ord have "filter is_stage_entry (logged demo_execution)
           = concat (map (\<lambda>st. [StageIntro (name st), StageOutro (name st)]) (plan_stages demo_plan))"
    by (rule conjunct1 [OF conjunct2 [OF conjunct2]])
  then have c2: "filter is_stage_entry (logged demo_execution)
       = [StageIntro ''CPU'', StageOutro ''CPU'', StageIntro ''OMP'', StageOutro ''OMP'',
          StageIntro ''GPU'', StageOutro ''GPU'']"
    by (simp add: st)
  from ord have "world demo_execution
       = foldl (\<lambda>v st. snd (demo_call st demo_config demo_system v)) [] (plan_stages demo_plan)"
    by (rule conjunct1 [OF conjunct2 [OF conjunct2 [OF conjunct2]]])
  then have c3: "world demo_execution = [''CPU'', ''OMP'', ''GPU'']"
    by (simp add: st demo_call_def)
  have c4: "concat (map reported_stage (logged demo_execution)) = [''OMP'']"
    by (simp add: demo_execution_def)
  show ?thesis
    by (rule conjI [OF c1 conjI [OF c2 conjI [OF c3 c4]]])
qed

end
